theory Spec2Isabelle
  imports Main "HOL-Library.Word"
begin

section \<open>Streams, errors and results\<close>

text \<open>
  The package copies bytes between an \<open>io.Reader\<close> and an \<open>io.Writer\<close>. Both are
  interface values whose methods belong to foreign code, so the model takes the methods
  as functions on the state \<open>'s\<close> that lies behind the two streams:
  \<^item> \<open>src.Read(buf)\<close> with \<open>len(buf) = n\<close> yields the bytes it stored in \<open>buf[0:nr]\<close>
    (so \<open>nr\<close> is their number) and its error;
  \<^item> \<open>dst.Write(p)\<close> yields the \<open>int\<close> it reports and its error.
  Errors that foreign code can hand back are \<open>ioerror\<close>s. The two error values that
  this package creates with \<open>errors.New\<close> are unexported package variables, so no foreign
  method can return them: they are constructors of \<open>error\<close> only.
  A \<open>nil\<close> error is \<open>None\<close>.
\<close>

type_synonym byte = "8 word"
type_synonym int64 = "64 word"

datatype ioerror = EOF | ErrShortWrite | Fault nat

datatype error = IO ioerror | errInvalidWrite | interruptedErr

type_synonym 's Read = "nat \<Rightarrow> 's \<Rightarrow> (byte list \<times> ioerror option) \<times> 's"
type_synonym 's Write = "byte list \<Rightarrow> 's \<Rightarrow> (int \<times> ioerror option) \<times> 's"

text \<open>
  \<open>wt.WriteTo(dst)\<close> and \<open>rt.ReadFrom(src)\<close>, for a source that is an \<open>io.WriterTo\<close>
  and a destination that is an \<open>io.ReaderFrom\<close>: foreign code again, already applied to
  its argument.
\<close>

type_synonym 's fastpath = "'s \<Rightarrow> (int64 \<times> ioerror option) \<times> 's"

text \<open>The state a copy acts on: the streams, and what has been written to \<open>os.Stdout\<close>.\<close>

record 's world =
  streams :: 's
  Stdout :: "byte list"

text \<open>
  A call returns its pair \<open>(written, err)\<close>, or panics: \<open>buf[0:nr]\<close> is out of range
  when a reader reports more bytes than the buffer holds (buffers are made with
  \<open>make([]byte, size)\<close>, so capacity and length agree).
\<close>

datatype outcome = Return int64 "error option" | Panic

text \<open>One run of a loop body either leaves the loop (\<open>goto ret\<close>) or goes round again.\<close>

datatype 's iter = Stop outcome "'s world" | Continue int64 "'s world"

section \<open>CopyBufferWithContext, as in direct.go\<close>

text \<open>
  The size of the buffer allocated when \<open>buf == nil\<close>; \<open>lim\<close> is \<open>l.N\<close> when the source
  is an \<open>*io.LimitedReader\<close>.
\<close>

definition default_size :: "int option \<Rightarrow> nat" where
  "default_size lim =
     (let size = 32 * 1024 in
      case lim of
        None \<Rightarrow> size
      | Some N \<Rightarrow> if int size > N then (if N < 1 then 1 else nat N) else size)"

definition buf_len :: "int option \<Rightarrow> nat option \<Rightarrow> nat" where
  "buf_len lim buf = (case buf of None \<Rightarrow> default_size lim | Some n \<Rightarrow> n)"

text \<open>The \<open>default:\<close> branch of the \<open>select\<close> (direct.go, lines 211 to 236).\<close>

definition direct_body :: "'s Read \<Rightarrow> 's Write \<Rightarrow> nat \<Rightarrow> int64 \<Rightarrow> 's world \<Rightarrow> 's iter" where
  "direct_body Read Write n written w =
     (case Read n (streams w) of ((data, er), s1) \<Rightarrow>
        let nr = int (length data); w1 = w\<lparr>streams := s1\<rparr> in
        if int n < nr then Stop Panic w1
        else
          (case (if 0 < nr then
                   (let w2 = w1\<lparr>Stdout := Stdout w1 @ data\<rparr> in
                    case Write data (streams w2) of ((nw, ew), s3) \<Rightarrow>
                      let w3 = w2\<lparr>streams := s3\<rparr>;
                          invalid = (nw < 0 \<or> nr < nw);
                          nw' = (if invalid then 0 else nw);
                          ew' = (if invalid \<and> ew = None then Some errInvalidWrite
                                 else map_option IO ew);
                          written' = written + word_of_int nw'
                      in if ew' \<noteq> None then Inl (Stop (Return written' ew') w3)
                         else if nr \<noteq> nw' then
                           Inl (Stop (Return written' (Some (IO ErrShortWrite))) w3)
                         else Inr (written', w3))
                 else Inr (written, w1)) of
             Inl stop \<Rightarrow> stop
           | Inr (written', w') \<Rightarrow>
               (case er of
                  None \<Rightarrow> Continue written' w'
                | Some e \<Rightarrow>
                    Stop (Return written' (if e \<noteq> EOF then Some (IO e) else None)) w')))"

text \<open>
  The \<open>for\<close> loop. \<open>ctx k\<close> says whether \<open>ctx.Done()\<close> is ready at the \<open>select\<close> of
  iteration \<open>k\<close>. The loop need not end (a reader may return \<open>0, nil\<close> for ever), so not
  returning is the value \<open>None\<close>.
\<close>

partial_function (option) direct_loop ::
  "'s Read \<Rightarrow> 's Write \<Rightarrow> (nat \<Rightarrow> bool) \<Rightarrow> nat \<Rightarrow> nat \<Rightarrow> int64 \<Rightarrow> 's world
     \<Rightarrow> (outcome \<times> 's world) option" where
  "direct_loop Read Write ctx n k written w =
     (if ctx k then Some (Return written (Some interruptedErr), w)
      else
        (case direct_body Read Write n written w of
           Stop r w' \<Rightarrow> Some (r, w')
         | Continue written' w' \<Rightarrow> direct_loop Read Write ctx n (Suc k) written' w'))"

definition run_fastpath :: "'s fastpath \<Rightarrow> 's world \<Rightarrow> (outcome \<times> 's world) option" where
  "run_fastpath f w =
     (case f (streams w) of ((n, e), s') \<Rightarrow> Some (Return n (map_option IO e), w\<lparr>streams := s'\<rparr>))"

definition CopyBufferWithContext ::
  "'s fastpath option \<Rightarrow> 's fastpath option \<Rightarrow> int option \<Rightarrow> 's Read \<Rightarrow> 's Write
     \<Rightarrow> nat option \<Rightarrow> (nat \<Rightarrow> bool) \<Rightarrow> 's world \<Rightarrow> (outcome \<times> 's world) option" where
  "CopyBufferWithContext wt rt lim Read Write buf ctx w =
     (case wt of
        Some WriteTo \<Rightarrow> run_fastpath WriteTo w
      | None \<Rightarrow>
          (case rt of
             Some ReadFrom \<Rightarrow> run_fastpath ReadFrom w
           | None \<Rightarrow> direct_loop Read Write ctx (buf_len lim buf) 0 0 w))"

section \<open>CopyBufferWithContext, as in the earlier client.go\<close>

text \<open>The \<open>default:\<close> branch of the \<open>select\<close> (client.go, lines 274 to 298).\<close>

definition client_body :: "'s Read \<Rightarrow> 's Write \<Rightarrow> nat \<Rightarrow> int64 \<Rightarrow> 's world \<Rightarrow> 's iter" where
  "client_body Read Write n written w =
     (case Read n (streams w) of ((data, er), s1) \<Rightarrow>
        let nr = int (length data); w1 = w\<lparr>streams := s1\<rparr> in
        if int n < nr then Stop Panic w1
        else
          (case (if 0 < nr then
                   (case Write data (streams w1) of ((nw, ew), s3) \<Rightarrow>
                      let w3 = w1\<lparr>streams := s3\<rparr>;
                          invalid = (nw < 0 \<or> nr < nw);
                          nw' = (if invalid then 0 else nw);
                          ew' = (if invalid \<and> ew = None then Some errInvalidWrite
                                 else map_option IO ew);
                          written' = written + word_of_int nw'
                      in if ew' \<noteq> None then Inl (Stop (Return written' ew') w3)
                         else if nr \<noteq> nw' then
                           Inl (Stop (Return written' (Some (IO ErrShortWrite))) w3)
                         else Inr (written', w3))
                 else Inr (written, w1)) of
             Inl stop \<Rightarrow> stop
           | Inr (written', w') \<Rightarrow>
               (case er of
                  None \<Rightarrow> Continue written' w'
                | Some e \<Rightarrow>
                    Stop (Return written' (if e \<noteq> EOF then Some (IO e) else None)) w')))"

text \<open>
  On \<open>ctx.Done()\<close> this variant has a bare \<open>return\<close>: the named results as they stand,
  and \<open>err\<close> is still \<open>nil\<close> there, since every assignment to it is followed by
  \<open>goto ret\<close>.
\<close>

partial_function (option) client_loop ::
  "'s Read \<Rightarrow> 's Write \<Rightarrow> (nat \<Rightarrow> bool) \<Rightarrow> nat \<Rightarrow> nat \<Rightarrow> int64 \<Rightarrow> 's world
     \<Rightarrow> (outcome \<times> 's world) option" where
  "client_loop Read Write ctx n k written w =
     (if ctx k then Some (Return written None, w)
      else
        (case client_body Read Write n written w of
           Stop r w' \<Rightarrow> Some (r, w')
         | Continue written' w' \<Rightarrow> client_loop Read Write ctx n (Suc k) written' w'))"



section \<open>Sources and destinations that behave\<close>

text \<open>
  What the copy may rely on in the foreign code it is given. The streams are seen through
  \<open>todo\<close>, the bytes the source has still to deliver, and \<open>got\<close>, the bytes the
  destination holds.
  \<^item> A source read with buffers of length \<open>n\<close>: every \<open>Read\<close> takes at most \<open>n\<close> bytes
    off the front of \<open>todo\<close> and leaves the destination alone; its error is \<open>nil\<close>, and
    then the source is one step nearer its end (\<open>left\<close> counts the reads it may still
    need), or \<open>io.EOF\<close>, and then nothing is left to deliver. Bytes may come with the
    \<open>io.EOF\<close> or before it, and a read may deliver nothing.
  \<^item> A destination: every \<open>Write\<close> takes the whole slice, reports its length and no
    error, and leaves the source alone.
  \<^item> A \<open>WriteTo\<close> or \<open>ReadFrom\<close> method: it moves all of \<open>todo\<close> to the destination
    and reports its length and no error.
\<close>

definition is_source ::
  "'s Read \<Rightarrow> nat \<Rightarrow> ('s \<Rightarrow> byte list) \<Rightarrow> ('s \<Rightarrow> byte list) \<Rightarrow> ('s \<Rightarrow> nat) \<Rightarrow> bool" where
  "is_source Read n todo got left \<longleftrightarrow>
     (\<forall>s. case Read n s of ((d, er), s') \<Rightarrow>
        length d \<le> n \<and> todo s = d @ todo s' \<and> got s' = got s \<and>
        (case er of None \<Rightarrow> left s' < left s | Some e \<Rightarrow> e = EOF \<and> todo s' = []))"

definition is_sink ::
  "'s Write \<Rightarrow> ('s \<Rightarrow> byte list) \<Rightarrow> ('s \<Rightarrow> byte list) \<Rightarrow> ('s \<Rightarrow> nat) \<Rightarrow> bool" where
  "is_sink Write todo got left \<longleftrightarrow>
     (\<forall>p s. case Write p s of ((nw, ew), s') \<Rightarrow>
        nw = int (length p) \<and> ew = None \<and> got s' = got s @ p \<and>
        todo s' = todo s \<and> left s' = left s)"

definition hands_over :: "'s fastpath \<Rightarrow> ('s \<Rightarrow> byte list) \<Rightarrow> ('s \<Rightarrow> byte list) \<Rightarrow> bool" where
  "hands_over f todo got \<longleftrightarrow>
     (\<forall>s. case f s of ((k, e), s') \<Rightarrow>
        k = word_of_nat (length (todo s)) \<and> e = None \<and> got s' = got s @ todo s \<and>
        todo s' = [])"

section \<open>A source and a destination to copy between\<close>

text \<open>
  A source that delivers a finite byte sequence, as a connection does: the bytes arrive in
  chunks, a \<open>Read\<close> hands over what fits into the buffer of the chunk at the front and
  keeps the rest of it for the next call, and when nothing is left it reports \<open>io.EOF\<close>.
  The destination takes every slice whole and keeps what it was given.
\<close>

record pipe =
  pending :: "byte list list"
  received :: "byte list"

definition pipe_Read :: "pipe Read" where
  "pipe_Read n s =
     (case pending s of
        [] \<Rightarrow> (([], Some EOF), s)
      | c # cs \<Rightarrow>
          if length c \<le> n then ((c, None), s\<lparr>pending := cs\<rparr>)
          else ((take n c, None), s\<lparr>pending := drop n c # cs\<rparr>))"

definition pipe_Write :: "pipe Write" where
  "pipe_Write p s = ((int (length p), None), s\<lparr>received := received s @ p\<rparr>)"

text \<open>A source with a \<open>WriteTo\<close> method of its own, which hands all pending bytes over.\<close>

definition pipe_WriteTo :: "pipe fastpath" where
  "pipe_WriteTo s =
     ((word_of_nat (length (concat (pending s))), None),
      \<lparr>pending = [], received = received s @ concat (pending s)\<rparr>)"

text \<open>A destination with a \<open>ReadFrom\<close> method of its own, which takes all pending bytes.\<close>

definition pipe_ReadFrom :: "pipe fastpath" where
  "pipe_ReadFrom s =
     ((word_of_nat (length (concat (pending s))), None),
      \<lparr>pending = [], received = received s @ concat (pending s)\<rparr>)"

text \<open>
  A source like \<open>pipe_Read\<close> that reports \<open>io.EOF\<close> together with the last bytes, as
  \<open>io.Reader\<close> allows, not in a read of its own.
\<close>

definition pipe_Read_eof :: "pipe Read" where
  "pipe_Read_eof n s =
     (case pending s of
        [] \<Rightarrow> (([], Some EOF), s)
      | c # cs \<Rightarrow>
          if length c \<le> n
          then ((c, if cs = [] then Some EOF else None), s\<lparr>pending := cs\<rparr>)
          else ((take n c, None), s\<lparr>pending := drop n c # cs\<rparr>))"

definition pipe_left :: "pipe \<Rightarrow> nat" where
  "pipe_left s = length (concat (pending s)) + length (pending s)"

definition pipe_todo :: "pipe \<Rightarrow> byte list" where
  "pipe_todo s = concat (pending s)"

text \<open>A world to try the copies on: four bytes on their way, in two chunks.\<close>

definition two_chunks :: "pipe world" where
  "two_chunks = \<lparr>streams = \<lparr>pending = [[1, 2, 3], [4]], received = []\<rparr>, Stdout = []\<rparr>"

section \<open>Director.bindConnsWithBuffer\<close>

text \<open>
  Two goroutines, one per direction, and the caller waiting on a \<open>sync.WaitGroup\<close>. Each
  goroutine is at one of its four statements or has left its function; the results of its
  \<open>CopyBufferWithContext\<close> call are discarded by the source, so the step that leaves
  \<open>InCopy\<close> stands for that call returning, whatever it returns. A schedule is the order
  in which the three take their steps; a step that is not enabled (the caller in
  \<open>wg.Wait()\<close> while the counter is not zero, a goroutine that has ended) is \<open>None\<close>.
\<close>

datatype copier = InCopy | CloseLocal | CloseRemote | SignalDone | Exited

datatype actor = L2R | R2L | Caller

record binding =
  lconn_closes :: nat
  rconn_closes :: nat
  wg :: int
  l2r :: copier
  r2l :: copier
  returned :: bool

definition bind_start :: binding where
  "bind_start =
     \<lparr>lconn_closes = 0, rconn_closes = 0, wg = 2, l2r = InCopy, r2l = InCopy, returned = False\<rparr>"

fun copier_step :: "copier \<Rightarrow> binding \<Rightarrow> (copier \<times> binding) option" where
  "copier_step InCopy b = Some (CloseLocal, b)"
| "copier_step CloseLocal b = Some (CloseRemote, b\<lparr>lconn_closes := Suc (lconn_closes b)\<rparr>)"
| "copier_step CloseRemote b = Some (SignalDone, b\<lparr>rconn_closes := Suc (rconn_closes b)\<rparr>)"
| "copier_step SignalDone b = Some (Exited, b\<lparr>wg := wg b - 1\<rparr>)"
| "copier_step Exited b = None"

fun bind_step :: "actor \<Rightarrow> binding \<Rightarrow> binding option" where
  "bind_step L2R b = map_option (\<lambda>(pc, b'). b'\<lparr>l2r := pc\<rparr>) (copier_step (l2r b) b)"
| "bind_step R2L b = map_option (\<lambda>(pc, b'). b'\<lparr>r2l := pc\<rparr>) (copier_step (r2l b) b)"
| "bind_step Caller b =
     (if returned b then None
      else if wg b = 0 then Some (b\<lparr>returned := True\<rparr>)
      else None)"

fun bind_run :: "actor list \<Rightarrow> binding \<Rightarrow> binding option" where
  "bind_run [] b = Some b"
| "bind_run (a # as) b = (case bind_step a b of None \<Rightarrow> None | Some b' \<Rightarrow> bind_run as b')"

definition bindConnsWithBuffer :: "actor list \<Rightarrow> binding option" where
  "bindConnsWithBuffer schedule = bind_run schedule bind_start"

text \<open>A goroutine has ended its direction once both of its \<open>Close\<close> calls are behind it.\<close>

fun ended :: "copier \<Rightarrow> bool" where
  "ended SignalDone = True"
| "ended Exited = True"
| "ended c = False"

text \<open>
  What holds at every moment of a run: the wait group counts the goroutines that have
  not called \<open>wg.Done()\<close> yet, a goroutine past a \<open>Close\<close> call has made it, and the
  caller returns on a zero counter only.
\<close>

fun counts :: "copier \<Rightarrow> int" where
  "counts Exited = 0"
| "counts c = 1"

fun past_local :: "copier \<Rightarrow> bool" where
  "past_local InCopy = False"
| "past_local CloseLocal = False"
| "past_local c = True"

definition bind_inv :: "binding \<Rightarrow> bool" where
  "bind_inv b \<longleftrightarrow>
     wg b = counts (l2r b) + counts (r2l b) \<and>
     (past_local (l2r b) \<longrightarrow> 0 < lconn_closes b) \<and>
     (past_local (r2l b) \<longrightarrow> 0 < lconn_closes b) \<and>
     (ended (l2r b) \<longrightarrow> 0 < rconn_closes b) \<and>
     (ended (r2l b) \<longrightarrow> 0 < rconn_closes b) \<and>
     (returned b \<longrightarrow> wg b = 0)"

section \<open>Director.RedirectToWithBuffer\<close>

text \<open>
  The accept loop. The listener is the list of results its \<open>Accept\<close> calls will give, in
  order (\<open>None\<close> is an error); when the list is used up \<open>Accept\<close> blocks. \<open>ctx k\<close> says
  whether \<open>ctx.Done()\<close> is ready at the \<open>select\<close> of iteration \<open>k\<close>. The loop yields
  whether it returned, the connections it started a goroutine for, and the results the
  listener still holds.
\<close>

fun RedirectToWithBuffer ::
  "(nat \<Rightarrow> bool) \<Rightarrow> nat \<Rightarrow> 'c option list \<Rightarrow> 'c list \<Rightarrow> bool \<times> 'c list \<times> 'c option list" where
  "RedirectToWithBuffer ctx k [] started =
     (if ctx k then (True, started, []) else (False, started, []))"
| "RedirectToWithBuffer ctx k (accepted # listener) started =
     (if ctx k then (True, started, accepted # listener)
      else
        (case accepted of
           None \<Rightarrow> (True, started, listener)
         | Some lconn \<Rightarrow> RedirectToWithBuffer ctx (Suc k) listener (started @ [lconn])))"

text \<open>
  The goroutine started for one accepted connection (lines 102 to 128): it dials, and
  after a successful dial starts one goroutine per direction, each of which closes both
  connections after its copy. There is no wait group here.
\<close>

datatype task = Task | ToRemote | ToLocal

record forwarding =
  dial_fails :: bool
  dialled :: bool
  task_ended :: bool
  to_remote :: "copier option"
  to_local :: "copier option"
  lconn_closed :: nat
  rconn_closed :: nat

definition accepted_conn :: "bool \<Rightarrow> forwarding" where
  "accepted_conn fails =
     \<lparr>dial_fails = fails, dialled = False, task_ended = False, to_remote = None,
      to_local = None, lconn_closed = 0, rconn_closed = 0\<rparr>"

fun redirect_copier_step :: "copier \<Rightarrow> forwarding \<Rightarrow> (copier \<times> forwarding) option" where
  "redirect_copier_step InCopy f = Some (CloseLocal, f)"
| "redirect_copier_step CloseLocal f = Some (CloseRemote, f\<lparr>lconn_closed := Suc (lconn_closed f)\<rparr>)"
| "redirect_copier_step CloseRemote f = Some (Exited, f\<lparr>rconn_closed := Suc (rconn_closed f)\<rparr>)"
| "redirect_copier_step SignalDone f = None"
| "redirect_copier_step Exited f = None"

fun redirect_step :: "task \<Rightarrow> forwarding \<Rightarrow> forwarding option" where
  "redirect_step Task f =
     (if task_ended f then None
      else if dial_fails f then Some (f\<lparr>task_ended := True\<rparr>)
      else Some (f\<lparr>dialled := True, task_ended := True,
                   to_remote := Some InCopy, to_local := Some InCopy\<rparr>))"
| "redirect_step ToRemote f =
     (case to_remote f of
        None \<Rightarrow> None
      | Some pc \<Rightarrow> map_option (\<lambda>(pc', f'). f'\<lparr>to_remote := Some pc'\<rparr>) (redirect_copier_step pc f))"
| "redirect_step ToLocal f =
     (case to_local f of
        None \<Rightarrow> None
      | Some pc \<Rightarrow> map_option (\<lambda>(pc', f'). f'\<lparr>to_local := Some pc'\<rparr>) (redirect_copier_step pc f))"

fun redirect_run :: "task list \<Rightarrow> forwarding \<Rightarrow> forwarding option" where
  "redirect_run [] f = Some f"
| "redirect_run (t # ts) f =
     (case redirect_step t f of None \<Rightarrow> None | Some f' \<Rightarrow> redirect_run ts f')"

section \<open>Director.DirectTcpToWithBuffer\<close>

text \<open>
  The second accept loop, with the \<open>NewConnCb\<close> hook (\<open>None\<close> when the field is
  \<open>nil\<close>); the hook gives an error (\<open>Inl\<close>) or the connection to go on with.
\<close>

fun DirectTcpToWithBuffer ::
  "('c \<Rightarrow> 'e + 'c) option \<Rightarrow> (nat \<Rightarrow> bool) \<Rightarrow> nat \<Rightarrow> 'c option list \<Rightarrow> 'c list
     \<Rightarrow> bool \<times> 'c list \<times> 'c option list" where
  "DirectTcpToWithBuffer NewConnCb ctx k [] started =
     (if ctx k then (True, started, []) else (False, started, []))"
| "DirectTcpToWithBuffer NewConnCb ctx k (accepted # listener) started =
     (if ctx k then (True, started, accepted # listener)
      else
        (case accepted of
           None \<Rightarrow> (True, started, listener)
         | Some lconn \<Rightarrow>
             (case NewConnCb of
                None \<Rightarrow> DirectTcpToWithBuffer NewConnCb ctx (Suc k) listener (started @ [lconn])
              | Some cb \<Rightarrow>
                  (case cb lconn of
                     Inl err \<Rightarrow> (True, started, listener)
                   | Inr transFormedConn \<Rightarrow>
                       DirectTcpToWithBuffer NewConnCb ctx (Suc k) listener
                         (started @ [transFormedConn])))))"

section \<open>Session.KeepAlive\<close>

text \<open>
  The goroutine waits in a \<open>select\<close> on \<open>ctx.Done()\<close> and on the ticker. A \<open>turn\<close>
  says which of the two it takes: \<open>Done\<close> after the returned cancel function was called,
  \<open>Tick ok\<close> for a tick, where \<open>ok\<close> says whether the request that it then sends comes
  back with a \<open>nil\<close> error. A loop yields how many requests it has sent and whether the
  goroutine has ended; with no turn left it is waiting in the \<open>select\<close>.
\<close>

datatype turn = Done | Tick bool

text \<open>The loop started when \<open>maxErrRetries <= 0\<close> (lines 84 to 98).\<close>

fun keepalive_unbounded :: "turn list \<Rightarrow> nat \<Rightarrow> nat \<times> bool" where
  "keepalive_unbounded [] sent = (sent, False)"
| "keepalive_unbounded (Done # turns) sent = (sent, True)"
| "keepalive_unbounded (Tick ok # turns) sent = keepalive_unbounded turns (Suc sent)"

text \<open>The loop started otherwise (lines 102 to 122).\<close>

fun keepalive_bounded :: "int \<Rightarrow> turn list \<Rightarrow> nat \<Rightarrow> nat \<times> bool" where
  "keepalive_bounded maxErrRetries [] sent = (sent, False)"
| "keepalive_bounded maxErrRetries (Done # turns) sent = (sent, True)"
| "keepalive_bounded maxErrRetries (Tick ok # turns) sent =
     (if \<not> ok then
        (if maxErrRetries \<le> 0 then (Suc sent, True)
         else keepalive_bounded (maxErrRetries - 1) turns (Suc sent))
      else keepalive_bounded maxErrRetries turns (Suc sent))"

text \<open>With \<open>interval <= 0\<close> no goroutine is started.\<close>

definition KeepAlive :: "int \<Rightarrow> int \<Rightarrow> turn list \<Rightarrow> nat \<times> bool" where
  "KeepAlive interval maxErrRetries turns =
     (if interval \<le> 0 then (0, True)
      else if maxErrRetries \<le> 0 then keepalive_unbounded turns 0
      else keepalive_bounded maxErrRetries turns 0)"

section \<open>KnownHostsChecker.KnownHostsCheck\<close>

text \<open>
  The errors of the \<open>knownhosts\<close> library, which is foreign code: a revoked key, a
  \<open>KeyError\<close> (with the number of keys the files hold for the host: none when the host is
  not in them), and any other. \<open>knownhosts.New\<close>, the callback it returns and
  \<open>knownhosts.Line\<close> are parameters of the model.
\<close>

datatype lib_error = RevokedError | KeyError nat | OtherError nat

datatype check_error = no_known_hosts_file_given | Lib lib_error | Scan_failed | unknown_host

text \<open>The four things the function prints, in the order of the source.\<close>

datatype message = revoked_key_found | No_host_key_found | Append_host_key | Add_host_key_failed

record checker =
  files :: "string list"
  Interactively :: bool

text \<open>
  What the function acts on: the words waiting on standard input, what it has printed,
  and the lines of \<open>kw.files[0]\<close> (\<open>None\<close> when that file cannot be opened for
  appending; the write to the \<open>nil\<close> file then fails).
\<close>

record env =
  stdin :: "string list"
  printed :: "message list"
  known_hosts :: "string list option"

definition Println :: "message \<Rightarrow> env \<Rightarrow> env" where
  "Println m e = e\<lparr>printed := printed e @ [m]\<rparr>"

text \<open>\<open>fmt.Scan(&answer)\<close>: the next word, or an error that leaves \<open>answer\<close> alone.\<close>

definition Scan :: "env \<Rightarrow> string option \<times> env" where
  "Scan e = (case stdin e of [] \<Rightarrow> (None, e) | t # ts \<Rightarrow> (Some t, e\<lparr>stdin := ts\<rparr>))"

text \<open>
  \<open>strings.ToLower\<close> on ASCII: the letters A to Z get bit 5 set. (No other rune has a
  lower case among the letters of \<open>yes\<close> and \<open>no\<close>, the only words compared here.)
\<close>

fun lower :: "char \<Rightarrow> char" where
  "lower (Char b0 b1 b2 b3 b4 b5 b6 b7) =
     (let n = (of_char (Char b0 b1 b2 b3 b4 b5 b6 b7) :: nat) in
      if 65 \<le> n \<and> n \<le> 90 then Char b0 b1 b2 b3 b4 True b6 b7
      else Char b0 b1 b2 b3 b4 b5 b6 b7)"

definition ToLower :: "string \<Rightarrow> string" where
  "ToLower s = map lower s"

definition WriteString :: "string \<Rightarrow> env \<Rightarrow> env" where
  "WriteString line e =
     (case known_hosts e of
        None \<Rightarrow> Println Add_host_key_failed e
      | Some ls \<Rightarrow> e\<lparr>known_hosts := Some (ls @ [line])\<rparr>)"

definition KnownHostsCheck ::
  "checker \<Rightarrow> (string list \<Rightarrow> lib_error + (string \<Rightarrow> string \<Rightarrow> 'k \<Rightarrow> lib_error option))
     \<Rightarrow> (string list \<Rightarrow> 'k \<Rightarrow> string) \<Rightarrow> string \<Rightarrow> string \<Rightarrow> 'k \<Rightarrow> env
     \<Rightarrow> check_error option \<times> env" where
  "KnownHostsCheck kw New Line hostname remote key e =
     (if files kw = [] then (Some no_known_hosts_file_given, e)
      else
        (case New (files kw) of
           Inl err \<Rightarrow>
             (if err = RevokedError
              then (Some (Lib err), if Interactively kw then Println revoked_key_found e else e)
              else (Some (Lib err), e))
         | Inr callback \<Rightarrow>
             (case callback hostname remote key of
                Some err \<Rightarrow> (Some (Lib err), e)
              | None \<Rightarrow>
                  if \<not> Interactively kw then (None, e)
                  else
                    (case Scan (Println No_host_key_found e) of
                       (None, e1) \<Rightarrow> (Some Scan_failed, e1)
                     | (Some answer, e1) \<Rightarrow>
                         if ToLower answer = ''yes'' then
                           (case Scan (Println Append_host_key e1) of
                              (None, e2) \<Rightarrow> (Some Scan_failed, e2)
                            | (Some answer', e2) \<Rightarrow>
                                if ToLower answer' = ''no'' then (None, e2)
                                else if answer' = ''yes''
                                then (None, WriteString (Line [remote] key) e2)
                                else (None, e2))
                         else (Some unknown_host, e1)))))"

section \<open>Inputs to run the models on\<close>

text \<open>A hook that turns connection 1 away and lets every other one through.\<close>

definition refuse_first :: "nat \<Rightarrow> string + nat" where
  "refuse_first c = (if c = 1 then Inl ''refused'' else Inr c)"

text \<open>
  A \<open>known_hosts\<close> callback for files that hold one host, \<open>''known.example''\<close> with the
  key 1: it accepts that pair, reports a \<open>KeyError\<close> with one wanted key for another
  key of that host, and a \<open>KeyError\<close> without wanted keys for any other host.
\<close>

definition one_host :: "string list \<Rightarrow> lib_error + (string \<Rightarrow> string \<Rightarrow> nat \<Rightarrow> lib_error option)" where
  "one_host fs =
     Inr (\<lambda>hostname remote key.
            if hostname = ''known.example'' then (if key = 1 then None else Some (KeyError 1))
            else Some (KeyError 0))"

definition Line_of :: "string list \<Rightarrow> nat \<Rightarrow> string" where
  "Line_of addresses key = concat addresses @ '' ssh-ed25519 '' @ replicate key CHR ''A''"

definition interactive :: checker where
  "interactive = \<lparr>files = [''known_hosts''], Interactively = True\<rparr>"

definition yes_yes :: env where
  "yes_yes = \<lparr>stdin = [''yes'', ''yes''], printed = [], known_hosts = Some []\<rparr>"

section \<open>Properties of the copy\<close>

subsection \<open>The loop on a source and a destination\<close>

lemma body_no_data:
  assumes "Read n (streams w) = (([], er), s1)"
  shows "direct_body Read Write n written w =
     (case er of
        None \<Rightarrow> Continue written (w\<lparr>streams := s1\<rparr>)
      | Some e \<Rightarrow> Stop (Return written (if e \<noteq> EOF then Some (IO e) else None))
                    (w\<lparr>streams := s1\<rparr>))"
  using assms by (cases er) (simp_all add: direct_body_def)

lemma body_data:
  assumes "Read n (streams w) = ((d, er), s1)" and "d \<noteq> []" and "length d \<le> n"
    and "Write d s1 = ((int (length d), None), s3)"
  shows "direct_body Read Write n written w =
     (case er of
        None \<Rightarrow> Continue (written + word_of_nat (length d))
                  (w\<lparr>streams := s3, Stdout := Stdout w @ d\<rparr>)
      | Some e \<Rightarrow> Stop (Return (written + word_of_nat (length d))
                      (if e \<noteq> EOF then Some (IO e) else None))
                    (w\<lparr>streams := s3, Stdout := Stdout w @ d\<rparr>))"
  using assms by (cases er) (simp_all add: direct_body_def Let_def)

lemma loop_copies_all:
  assumes src: "is_source Read n todo got left" and dst: "is_sink Write todo got left"
  shows "\<exists>w'. direct_loop Read Write (\<lambda>k. False) n k written w =
           Some (Return (written + word_of_nat (length (todo (streams w)))) None, w')
         \<and> got (streams w') = got (streams w) @ todo (streams w)
         \<and> todo (streams w') = []"
proof (induction "left (streams w)" arbitrary: k written w rule: less_induct)
  case less
  obtain d er s1 where rd: "Read n (streams w) = ((d, er), s1)"
    by (metis surj_pair)
  from src rd have len: "length d \<le> n" and todo: "todo (streams w) = d @ todo s1"
    and got1: "got s1 = got (streams w)"
    and end1: "case er of None \<Rightarrow> left s1 < left (streams w)
               | Some e \<Rightarrow> e = EOF \<and> todo s1 = []"
    unfolding is_source_def by (auto dest!: spec [of _ "streams w"])
  obtain nw ew s3 where wr: "Write d s1 = ((nw, ew), s3)"
    by (metis surj_pair)
  from dst wr have nw: "nw = int (length d)" and ew: "ew = None"
    and got3: "got s3 = got s1 @ d" and todo3: "todo s3 = todo s1"
    and left3: "left s3 = left s1"
    unfolding is_sink_def by (auto dest!: spec [of _ d] spec [of _ s1])
  define w1 where "w1 = (if d = [] then w\<lparr>streams := s1\<rparr>
                         else w\<lparr>streams := s3, Stdout := Stdout w @ d\<rparr>)"
  have got_w1: "got (streams w1) = got (streams w) @ d"
    using got1 got3 by (simp add: w1_def)
  have todo_w1: "todo (streams w1) = todo s1"
    using todo3 by (simp add: w1_def)
  have left_w1: "left (streams w1) = left s1"
    using left3 by (simp add: w1_def)
  have body: "direct_body Read Write n written w =
     (case er of
        None \<Rightarrow> Continue (written + word_of_nat (length d)) w1
      | Some e \<Rightarrow> Stop (Return (written + word_of_nat (length d))
                      (if e \<noteq> EOF then Some (IO e) else None)) w1)"
  proof (cases "d = []")
    case True
    with body_no_data [of Read n w er s1 Write written] rd show ?thesis
      by (cases er) (simp_all add: w1_def)
  next
    case False
    from wr nw ew have "Write d s1 = ((int (length d), None), s3)" by simp
    from body_data [of Read n w d er s1 Write s3 written, OF rd False len this] False
    show ?thesis
      by (cases er) (simp_all add: w1_def)
  qed
  show ?case
  proof (cases er)
    case None
    with end1 left_w1 have "left (streams w1) < left (streams w)" by simp
    from less [OF this, of "Suc k" "written + word_of_nat (length d)"]
    obtain w' where run: "direct_loop Read Write (\<lambda>k. False) n (Suc k)
          (written + word_of_nat (length d)) w1 =
        Some (Return (written + word_of_nat (length d)
                + word_of_nat (length (todo (streams w1)))) None, w')"
      and got': "got (streams w') = got (streams w1) @ todo (streams w1)"
      and todo': "todo (streams w') = []"
      by blast
    have "direct_loop Read Write (\<lambda>k. False) n k written w =
        Some (Return (written + word_of_nat (length (todo (streams w)))) None, w')"
      using body None run todo todo_w1
      by (subst direct_loop.simps) (simp add: add.assoc)
    with got' todo' got_w1 todo_w1 todo show ?thesis by auto
  next
    case (Some e)
    with end1 have e: "e = EOF" and rest: "todo s1 = []" by simp_all
    have "direct_loop Read Write (\<lambda>k. False) n k written w =
        Some (Return (written + word_of_nat (length (todo (streams w)))) None, w1)"
      using body Some e todo rest
      by (subst direct_loop.simps) simp
    with got_w1 todo_w1 rest todo show ?thesis by auto
  qed
qed

lemma fastpath_copies_all:
  assumes "hands_over f todo got"
  shows "\<exists>w'. run_fastpath f w =
           Some (Return (word_of_nat (length (todo (streams w)))) None, w')
         \<and> got (streams w') = got (streams w) @ todo (streams w)
         \<and> todo (streams w') = []"
proof -
  obtain k e s' where f: "f (streams w) = ((k, e), s')"
    by (metis surj_pair)
  with assms have "k = word_of_nat (length (todo (streams w)))" "e = None"
    "got s' = got (streams w) @ todo (streams w)" "todo s' = []"
    unfolding hands_over_def by (auto dest!: spec [of _ "streams w"])
  with f show ?thesis by (simp add: run_fastpath_def)
qed

lemma sint_word_of_nat:
  assumes "n < 2 ^ 63"
  shows "sint (word_of_nat n :: int64) = int n"
proof -
  have "int n < int (2 ^ 63)"
    using assms by (simp only: of_nat_less_iff)
  then have less: "int n < 2 ^ 63"
    by (simp only: of_nat_power of_nat_numeral)
  have "- (2 ^ 63) \<le> (0 :: int)" by simp
  also have "0 \<le> int n" by simp
  finally have "signed_take_bit 63 (int n) = int n"
    using less by (rule signed_take_bit_int_eq_self)
  then show ?thesis
    by (simp only: signed_of_nat len_bit0 len_num1 of_int_eq_id id_apply) simp
qed

lemma buf_len_pos: "buf \<noteq> Some 0 \<Longrightarrow> 0 < buf_len lim buf"
  by (auto simp: buf_len_def default_size_def Let_def split: option.splits)

subsection \<open>The pipe is such a source and destination\<close>

lemma pipe_is_source:
  assumes "0 < n"
  shows "is_source pipe_Read n pipe_todo received pipe_left"
  unfolding is_source_def
proof
  fix s :: pipe
  show "case pipe_Read n s of ((d, er), s') \<Rightarrow>
        length d \<le> n \<and> pipe_todo s = d @ pipe_todo s' \<and> received s' = received s \<and>
        (case er of None \<Rightarrow> pipe_left s' < pipe_left s
         | Some e \<Rightarrow> e = EOF \<and> pipe_todo s' = [])"
  proof (cases "pending s")
    case Nil
    then show ?thesis by (simp add: pipe_Read_def pipe_todo_def)
  next
    case (Cons c cs)
    with assms show ?thesis
      by (auto simp: pipe_Read_def pipe_todo_def pipe_left_def)
  qed
qed

lemma pipe_eof_is_source:
  assumes "0 < n"
  shows "is_source pipe_Read_eof n pipe_todo received pipe_left"
  unfolding is_source_def
proof
  fix s :: pipe
  show "case pipe_Read_eof n s of ((d, er), s') \<Rightarrow>
        length d \<le> n \<and> pipe_todo s = d @ pipe_todo s' \<and> received s' = received s \<and>
        (case er of None \<Rightarrow> pipe_left s' < pipe_left s
         | Some e \<Rightarrow> e = EOF \<and> pipe_todo s' = [])"
  proof (cases "pending s")
    case Nil
    then show ?thesis by (simp add: pipe_Read_eof_def pipe_todo_def)
  next
    case (Cons c cs)
    with assms show ?thesis
      by (auto simp: pipe_Read_eof_def pipe_todo_def pipe_left_def)
  qed
qed

lemma pipe_is_sink: "is_sink pipe_Write pipe_todo received pipe_left"
  by (simp add: is_sink_def pipe_Write_def pipe_todo_def pipe_left_def)

lemma pipe_hands_over: "hands_over pipe_WriteTo pipe_todo received"
  by (simp add: hands_over_def pipe_WriteTo_def pipe_todo_def)

lemma pipe_ReadFrom_hands_over: "hands_over pipe_ReadFrom pipe_todo received"
  by (simp add: hands_over_def pipe_ReadFrom_def pipe_todo_def)

text \<open>
  C1. Whatever the source and the destination are, as long as they behave: with a
  cancellation signal that never fires and a buffer that is \<open>nil\<close> or of length at least
  1, \<open>CopyBufferWithContext\<close> (direct.go) returns, the destination then holds what it
  held before followed by exactly the bytes the source had to deliver, in order, nothing
  is left in the source, \<open>written\<close> is the number of those bytes and \<open>err\<close> is \<open>nil\<close>:
  the \<open>io.EOF\<close> that ends the source is not reported, whether it comes with the last
  bytes or after them. This holds on each path of the function: through the \<open>WriteTo\<close>
  of a source that has one, through the \<open>ReadFrom\<close> of a destination that has one, and
  through the loop. (\<open>written\<close> is an \<open>int64\<close>: read as such it is the number of bytes
  as long as that is below \<open>2^63\<close>.)
\<close>

theorem CopyBufferWithContext_copies_all:
  assumes "buf \<noteq> Some 0"
    and "case wt of
           Some WriteTo \<Rightarrow> hands_over WriteTo todo got
         | None \<Rightarrow>
             (case rt of
                Some ReadFrom \<Rightarrow> hands_over ReadFrom todo got
              | None \<Rightarrow> (\<forall>n. 0 < n \<longrightarrow> is_source Read n todo got left)
                        \<and> is_sink Write todo got left)"
  shows "(\<exists>w'. CopyBufferWithContext wt rt lim Read Write buf (\<lambda>k. False) w =
              Some (Return (word_of_nat (length (todo (streams w)))) None, w')
            \<and> got (streams w') = got (streams w) @ todo (streams w)
            \<and> todo (streams w') = [])
         \<and> (length (todo (streams w)) < 2 ^ 63 \<longrightarrow>
              sint (word_of_nat (length (todo (streams w))) :: int64) =
                int (length (todo (streams w))))"
proof (intro conjI impI)
  show "\<exists>w'. CopyBufferWithContext wt rt lim Read Write buf (\<lambda>k. False) w =
              Some (Return (word_of_nat (length (todo (streams w)))) None, w')
            \<and> got (streams w') = got (streams w) @ todo (streams w)
            \<and> todo (streams w') = []"
  proof (cases wt)
    case (Some WriteTo)
    with assms(2) have "hands_over WriteTo todo got" by simp
    from fastpath_copies_all [OF this, of w] Some show ?thesis
      by (simp add: CopyBufferWithContext_def)
  next
    case None
    show ?thesis
    proof (cases rt)
      case (Some ReadFrom)
      with None assms(2) have "hands_over ReadFrom todo got" by simp
      from fastpath_copies_all [OF this, of w] None Some show ?thesis
        by (simp add: CopyBufferWithContext_def)
    next
      case rt: None
      with None assms(2) buf_len_pos [OF assms(1), of lim]
      have "is_source Read (buf_len lim buf) todo got left" and "is_sink Write todo got left"
        by simp_all
      from loop_copies_all [OF this, of 0 0 w] None rt show ?thesis
        by (simp add: CopyBufferWithContext_def)
    qed
  qed
next
  assume "length (todo (streams w)) < 2 ^ 63"
  then show "sint (word_of_nat (length (todo (streams w))) :: int64) =
      int (length (todo (streams w)))"
    by (rule sint_word_of_nat)
qed

theorem CopyBufferWithContext_copies_all_witness:
  "(\<exists>w'. CopyBufferWithContext None None None pipe_Read pipe_Write (Some 2) (\<lambda>k. False)
            \<lparr>streams = \<lparr>pending = [[1, 2, 3], [], [4]], received = [9]\<rparr>, Stdout = []\<rparr> =
          Some (Return 4 None, w')
        \<and> received (streams w') = [9, 1, 2, 3, 4] \<and> pipe_todo (streams w') = [])
   \<and> (\<exists>w'. CopyBufferWithContext None None None pipe_Read_eof pipe_Write None (\<lambda>k. False)
            two_chunks = Some (Return 4 None, w')
        \<and> received (streams w') = [1, 2, 3, 4] \<and> pipe_todo (streams w') = [])
   \<and> (\<exists>w'. CopyBufferWithContext (Some pipe_WriteTo) None None pipe_Read pipe_Write (Some 2)
            (\<lambda>k. False) two_chunks = Some (Return 4 None, w')
        \<and> received (streams w') = [1, 2, 3, 4] \<and> pipe_todo (streams w') = [])
   \<and> (\<exists>w'. CopyBufferWithContext None (Some pipe_ReadFrom) None pipe_Read pipe_Write (Some 2)
            (\<lambda>k. False) two_chunks = Some (Return 4 None, w')
        \<and> received (streams w') = [1, 2, 3, 4] \<and> pipe_todo (streams w') = [])
   \<and> sint (4 :: int64) = 4"
proof -
  let ?w = "\<lparr>streams = \<lparr>pending = [[1, 2, 3], [], [4 :: byte]], received = [9]\<rparr>, Stdout = []\<rparr>"
  have buf: "Some (2 :: nat) \<noteq> Some 0" "(None :: nat option) \<noteq> Some 0" by simp_all
  have loop: "case (None :: pipe fastpath option) of
           Some WriteTo \<Rightarrow> hands_over WriteTo pipe_todo received
         | None \<Rightarrow>
             (case (None :: pipe fastpath option) of
                Some ReadFrom \<Rightarrow> hands_over ReadFrom pipe_todo received
              | None \<Rightarrow> (\<forall>n. 0 < n \<longrightarrow> is_source pipe_Read n pipe_todo received pipe_left)
                        \<and> is_sink pipe_Write pipe_todo received pipe_left)"
    by (simp add: pipe_is_source pipe_is_sink)
  have loop_eof: "case (None :: pipe fastpath option) of
           Some WriteTo \<Rightarrow> hands_over WriteTo pipe_todo received
         | None \<Rightarrow>
             (case (None :: pipe fastpath option) of
                Some ReadFrom \<Rightarrow> hands_over ReadFrom pipe_todo received
              | None \<Rightarrow> (\<forall>n. 0 < n \<longrightarrow> is_source pipe_Read_eof n pipe_todo received pipe_left)
                        \<and> is_sink pipe_Write pipe_todo received pipe_left)"
    by (simp add: pipe_eof_is_source pipe_is_sink)
  have wt: "case Some pipe_WriteTo of
           Some WriteTo \<Rightarrow> hands_over WriteTo pipe_todo received
         | None \<Rightarrow>
             (case (None :: pipe fastpath option) of
                Some ReadFrom \<Rightarrow> hands_over ReadFrom pipe_todo received
              | None \<Rightarrow> (\<forall>n. 0 < n \<longrightarrow> is_source pipe_Read n pipe_todo received pipe_left)
                        \<and> is_sink pipe_Write pipe_todo received pipe_left)"
    by (simp add: pipe_hands_over)
  have rt: "case (None :: pipe fastpath option) of
           Some WriteTo \<Rightarrow> hands_over WriteTo pipe_todo received
         | None \<Rightarrow>
             (case Some pipe_ReadFrom of
                Some ReadFrom \<Rightarrow> hands_over ReadFrom pipe_todo received
              | None \<Rightarrow> (\<forall>n. 0 < n \<longrightarrow> is_source pipe_Read n pipe_todo received pipe_left)
                        \<and> is_sink pipe_Write pipe_todo received pipe_left)"
    by (simp add: pipe_ReadFrom_hands_over)
  have four: "(4 :: nat) < 2 ^ 63" by simp
  from CopyBufferWithContext_copies_all [OF buf(1) loop, of None ?w]
    CopyBufferWithContext_copies_all [OF buf(2) loop_eof, of None two_chunks]
    CopyBufferWithContext_copies_all [OF buf(1) wt, of None two_chunks]
    CopyBufferWithContext_copies_all [OF buf(1) rt, of None two_chunks]
    four
  show ?thesis
    by (simp add: pipe_todo_def two_chunks_def)
qed

subsection \<open>Cancellation\<close>

lemma direct_body_not_interrupted:
  "direct_body Read Write n written w = Stop (Return x e) w' \<Longrightarrow> e \<noteq> Some interruptedErr"
  by (auto simp: direct_body_def Let_def split: prod.splits option.splits sum.splits if_splits)

lemma direct_loop_interrupted_only_by_ctx:
  assumes "direct_loop Read Write ctx n k written w = Some y"
  shows "fst y = Return x (Some interruptedErr) \<longrightarrow> (\<exists>j. ctx j)"
proof (rule direct_loop.raw_induct [where P = "\<lambda>Read Write ctx n k written w y.
    fst y = Return x (Some interruptedErr) \<longrightarrow> (\<exists>j. ctx j)", OF _ assms], goal_cases)
  case (1 loop Read Write ctx n k written w y)
  show ?case
  proof (cases "ctx k")
    case True
    then show ?thesis by blast
  next
    case False
    show ?thesis
    proof (cases "direct_body Read Write n written w")
      case (Stop r w')
      with False 1(2) have y: "y = (r, w')" by simp
      show ?thesis
      proof
        assume "fst y = Return x (Some interruptedErr)"
        with y have "direct_body Read Write n written w = Stop (Return x (Some interruptedErr)) w'"
          using Stop by simp
        from direct_body_not_interrupted [OF this] show "\<exists>j. ctx j" by simp
      qed
    next
      case (Continue x' w')
      with False 1(2) have "loop Read Write ctx n (Suc k) x' w' = Some y" by simp
      from 1(1) [OF this] show ?thesis .
    qed
  qed
qed

text \<open>
  On the loop path a signal that has fired is honoured. When the source has no
  \<open>WriteTo\<close> and the destination no \<open>ReadFrom\<close>, a signal fired before the first read
  makes \<open>CopyBufferWithContext\<close> (direct.go) return at once: nothing read, nothing
  written, zero bytes reported and \<open>interruptedErr\<close>. At the \<open>select\<close> of any later
  iteration it makes the loop return the count so far with \<open>interruptedErr\<close> (the loop
  of the earlier client.go: with a \<open>nil\<close> error) and touch nothing. No error of a read
  or a write is returned as \<open>interruptedErr\<close>, so a copy whose signal never fires never
  returns it.
\<close>

lemma loop_cancelled:
  "(ctx 0 \<longrightarrow>
      CopyBufferWithContext None None lim Read Write buf ctx w =
        Some (Return 0 (Some interruptedErr), w))
   \<and> (ctx k \<longrightarrow>
      direct_loop Read Write ctx n k written w = Some (Return written (Some interruptedErr), w))
   \<and> (ctx k \<longrightarrow>
      client_loop Read Write ctx n k written w = Some (Return written None, w))
   \<and> ((\<forall>j. \<not> ctx j) \<longrightarrow>
      CopyBufferWithContext None None lim Read Write buf ctx w \<noteq>
        Some (Return x (Some interruptedErr), w'))"
proof (intro conjI impI)
  assume "ctx 0"
  then show "CopyBufferWithContext None None lim Read Write buf ctx w =
        Some (Return 0 (Some interruptedErr), w)"
    by (simp add: CopyBufferWithContext_def direct_loop.simps)
next
  assume "ctx k"
  then show "direct_loop Read Write ctx n k written w =
      Some (Return written (Some interruptedErr), w)"
    by (simp add: direct_loop.simps)
next
  assume "ctx k"
  then show "client_loop Read Write ctx n k written w = Some (Return written None, w)"
    by (simp add: client_loop.simps)
next
  assume never: "\<forall>j. \<not> ctx j"
  show "CopyBufferWithContext None None lim Read Write buf ctx w \<noteq>
        Some (Return x (Some interruptedErr), w')"
  proof
    assume "CopyBufferWithContext None None lim Read Write buf ctx w =
        Some (Return x (Some interruptedErr), w')"
    then have "direct_loop Read Write ctx (buf_len lim buf) 0 0 w =
        Some (Return x (Some interruptedErr), w')"
      by (simp add: CopyBufferWithContext_def)
    from direct_loop_interrupted_only_by_ctx [OF this, of x] never show False by simp
  qed
qed

lemma fastpath_never_reads_ctx:
  "CopyBufferWithContext (Some WriteTo) rt lim Read Write buf ctx w = run_fastpath WriteTo w"
  "CopyBufferWithContext None (Some ReadFrom) lim Read Write buf ctx w = run_fastpath ReadFrom w"
  by (simp_all add: CopyBufferWithContext_def)

text \<open>
  C2 fails on the code. The cancellation signal has fired before the call, and
  \<open>CopyBufferWithContext\<close> (direct.go) still copies all four bytes and returns
  \<open>4, nil\<close>, when the source is an \<open>io.WriterTo\<close> and when the destination is an
  \<open>io.ReaderFrom\<close>: the function returns through that method before it ever looks at the
  signal. On the same input without those methods it does what the claim says: nothing
  read, nothing written, \<open>0, interruptedErr\<close>.
\<close>

theorem CopyBufferWithContext_fastpath_ignores_cancel:
  "CopyBufferWithContext (Some pipe_WriteTo) None None pipe_Read pipe_Write (Some 2) (\<lambda>k. True)
     two_chunks =
   Some (Return 4 None,
         \<lparr>streams = \<lparr>pending = [], received = [1, 2, 3, 4]\<rparr>, Stdout = []\<rparr>)
   \<and> CopyBufferWithContext None (Some pipe_ReadFrom) None pipe_Read pipe_Write (Some 2)
       (\<lambda>k. True) two_chunks =
     Some (Return 4 None,
           \<lparr>streams = \<lparr>pending = [], received = [1, 2, 3, 4]\<rparr>, Stdout = []\<rparr>)
   \<and> CopyBufferWithContext None None None pipe_Read pipe_Write (Some 2) (\<lambda>k. True)
       two_chunks =
     Some (Return 0 (Some interruptedErr), two_chunks)"
  by (simp add: CopyBufferWithContext_def run_fastpath_def pipe_WriteTo_def pipe_ReadFrom_def
      two_chunks_def direct_loop.simps)

subsection \<open>The two variants side by side\<close>












section \<open>Properties of the binding\<close>

lemma bind_inv_start: "bind_inv bind_start"
  by (simp add: bind_inv_def bind_start_def)

lemma counts_nonneg: "0 \<le> counts c"
  by (cases c) simp_all

lemma counts_zero: "counts c = 0 \<longleftrightarrow> c = Exited"
  by (cases c) simp_all

lemma bind_inv_step_l2r:
  assumes "bind_inv b" and "bind_step L2R b = Some b'"
  shows "bind_inv b'"
proof (cases "l2r b")
  case InCopy
  with assms show ?thesis by (simp add: bind_inv_def) (auto simp: bind_inv_def)
next
  case CloseLocal
  with assms show ?thesis by (simp add: bind_inv_def) (auto simp: bind_inv_def)
next
  case CloseRemote
  with assms show ?thesis by (simp add: bind_inv_def) (auto simp: bind_inv_def)
next
  case SignalDone
  with assms counts_nonneg [of "r2l b"] show ?thesis
    by (simp add: bind_inv_def) (auto simp: bind_inv_def)
next
  case Exited
  with assms show ?thesis by simp
qed

lemma bind_inv_step_r2l:
  assumes "bind_inv b" and "bind_step R2L b = Some b'"
  shows "bind_inv b'"
proof (cases "r2l b")
  case InCopy
  with assms show ?thesis by (simp add: bind_inv_def) (auto simp: bind_inv_def)
next
  case CloseLocal
  with assms show ?thesis by (simp add: bind_inv_def) (auto simp: bind_inv_def)
next
  case CloseRemote
  with assms show ?thesis by (simp add: bind_inv_def) (auto simp: bind_inv_def)
next
  case SignalDone
  with assms counts_nonneg [of "l2r b"] show ?thesis
    by (simp add: bind_inv_def) (auto simp: bind_inv_def)
next
  case Exited
  with assms show ?thesis by simp
qed

lemma bind_inv_step_caller:
  assumes "bind_inv b" and "bind_step Caller b = Some b'"
  shows "bind_inv b'"
proof -
  from assms(2) have "wg b = 0" and "b' = b\<lparr>returned := True\<rparr>"
    by (simp_all split: if_splits)
  with assms(1) show ?thesis by (simp add: bind_inv_def)
qed

lemma bind_inv_step:
  assumes "bind_inv b" and "bind_step a b = Some b'"
  shows "bind_inv b'"
  using assms bind_inv_step_l2r bind_inv_step_r2l bind_inv_step_caller
  by (cases a) blast+

lemma bind_inv_run:
  "bind_inv b \<Longrightarrow> bind_run schedule b = Some b' \<Longrightarrow> bind_inv b'"
proof (induction schedule arbitrary: b)
  case Nil
  then show ?case by simp
next
  case (Cons a schedule)
  from Cons.prems(2) obtain b1 where step: "bind_step a b = Some b1"
    and run: "bind_run schedule b1 = Some b'"
    by (cases "bind_step a b") simp_all
  from bind_inv_step [OF Cons.prems(1) step] have "bind_inv b1" .
  from Cons.IH [OF this run] show ?case .
qed

lemma bind_inv_ended:
  assumes "bind_inv b" and "ended (l2r b) \<or> ended (r2l b)"
  shows "0 < lconn_closes b \<and> 0 < rconn_closes b"
proof -
  have "ended c \<Longrightarrow> past_local c" for c by (cases c) simp_all
  with assms show ?thesis unfolding bind_inv_def by blast
qed

lemma bind_inv_returned:
  assumes "bind_inv b" and "returned b"
  shows "l2r b = Exited \<and> r2l b = Exited"
proof -
  from assms have "counts (l2r b) + counts (r2l b) = 0"
    by (simp add: bind_inv_def)
  with counts_nonneg [of "l2r b"] counts_nonneg [of "r2l b"]
  have "counts (l2r b) = 0" "counts (r2l b) = 0" by linarith+
  then show ?thesis by (simp add: counts_zero)
qed

lemma copier_runs_on:
  assumes "l2r b = CloseLocal"
  shows "bind_run [L2R, L2R, L2R] b =
     Some (b\<lparr>lconn_closes := Suc (lconn_closes b), rconn_closes := Suc (rconn_closes b),
             wg := wg b - 1, l2r := Exited\<rparr>)"
  using assms by simp

lemma copier_runs_on':
  assumes "r2l b = CloseLocal"
  shows "bind_run [R2L, R2L, R2L] b =
     Some (b\<lparr>lconn_closes := Suc (lconn_closes b), rconn_closes := Suc (rconn_closes b),
             wg := wg b - 1, r2l := Exited\<rparr>)"
  using assms by simp

text \<open>
  C3. In every run of \<open>bindConnsWithBuffer\<close>, under every schedule:
  \<^item> as soon as either direction has ended (its copy has returned, whatever it returned,
    and its goroutine is past its two \<open>Close\<close> calls) both the local and the remote
    connection have been closed;
  \<^item> when the call has returned, both goroutines have left their functions, so no copy
    is running any more, and both connections have been closed;
  \<^item> a goroutine whose copy has returned is never held up: its next three steps close
    the local connection, close the remote one and count the wait group down;
  \<^item> once both goroutines have left, the caller's \<open>wg.Wait()\<close> returns.
\<close>

theorem bindConnsWithBuffer_closes_and_joins:
  assumes "bindConnsWithBuffer schedule = Some b"
  shows "(ended (l2r b) \<or> ended (r2l b) \<longrightarrow> 0 < lconn_closes b \<and> 0 < rconn_closes b)
       \<and> (returned b \<longrightarrow>
            l2r b = Exited \<and> r2l b = Exited \<and> 0 < lconn_closes b \<and> 0 < rconn_closes b)
       \<and> (l2r b = CloseLocal \<longrightarrow>
            bind_run [L2R, L2R, L2R] b =
              Some (b\<lparr>lconn_closes := Suc (lconn_closes b),
                      rconn_closes := Suc (rconn_closes b), wg := wg b - 1, l2r := Exited\<rparr>))
       \<and> (r2l b = CloseLocal \<longrightarrow>
            bind_run [R2L, R2L, R2L] b =
              Some (b\<lparr>lconn_closes := Suc (lconn_closes b),
                      rconn_closes := Suc (rconn_closes b), wg := wg b - 1, r2l := Exited\<rparr>))
       \<and> (l2r b = Exited \<and> r2l b = Exited \<and> \<not> returned b \<longrightarrow>
            bind_step Caller b = Some (b\<lparr>returned := True\<rparr>))"
proof -
  have inv: "bind_inv b"
    using assms bind_inv_run [OF bind_inv_start] by (simp add: bindConnsWithBuffer_def)
  show ?thesis
  proof (intro conjI impI)
    assume "ended (l2r b) \<or> ended (r2l b)"
    with bind_inv_ended [OF inv] show "0 < lconn_closes b" and "0 < rconn_closes b"
      by simp_all
  next
    assume ret: "returned b"
    from bind_inv_returned [OF inv ret] show ex: "l2r b = Exited" and "r2l b = Exited"
      by simp_all
    from ex have "ended (l2r b)" by simp
    with bind_inv_ended [OF inv] show "0 < lconn_closes b" and "0 < rconn_closes b"
      by simp_all
  next
    assume "l2r b = CloseLocal"
    then show "bind_run [L2R, L2R, L2R] b =
        Some (b\<lparr>lconn_closes := Suc (lconn_closes b),
                rconn_closes := Suc (rconn_closes b), wg := wg b - 1, l2r := Exited\<rparr>)"
      by (rule copier_runs_on)
  next
    assume "r2l b = CloseLocal"
    then show "bind_run [R2L, R2L, R2L] b =
        Some (b\<lparr>lconn_closes := Suc (lconn_closes b),
                rconn_closes := Suc (rconn_closes b), wg := wg b - 1, r2l := Exited\<rparr>)"
      by (rule copier_runs_on')
  next
    assume "l2r b = Exited \<and> r2l b = Exited \<and> \<not> returned b"
    with inv show "bind_step Caller b = Some (b\<lparr>returned := True\<rparr>)"
      by (simp add: bind_inv_def)
  qed
qed

theorem bindConnsWithBuffer_closes_and_joins_witness:
  "bindConnsWithBuffer [L2R, R2L, L2R, L2R, R2L, L2R, R2L, R2L, Caller] =
     Some \<lparr>lconn_closes = 2, rconn_closes = 2, wg = 0, l2r = Exited, r2l = Exited,
           returned = True\<rparr>
   \<and> bindConnsWithBuffer [L2R, L2R, L2R, Caller] = None
   \<and> bindConnsWithBuffer [L2R, L2R, L2R] =
     Some \<lparr>lconn_closes = 1, rconn_closes = 1, wg = 2, l2r = SignalDone, r2l = InCopy,
           returned = False\<rparr>
   \<and> bind_run [R2L, R2L, R2L]
       \<lparr>lconn_closes = 1, rconn_closes = 1, wg = 1, l2r = Exited, r2l = CloseLocal,
        returned = False\<rparr> =
     Some \<lparr>lconn_closes = 2, rconn_closes = 2, wg = 0, l2r = Exited, r2l = Exited,
           returned = False\<rparr>"
proof -
  have whole: "bindConnsWithBuffer [L2R, R2L, L2R, L2R, R2L, L2R, R2L, R2L, Caller] =
     Some \<lparr>lconn_closes = 2, rconn_closes = 2, wg = 0, l2r = Exited, r2l = Exited,
           returned = True\<rparr>"
    by (simp add: bindConnsWithBuffer_def bind_start_def)
  have part: "bindConnsWithBuffer [L2R, L2R, L2R, L2R, R2L] =
     Some \<lparr>lconn_closes = 1, rconn_closes = 1, wg = 1, l2r = Exited, r2l = CloseLocal,
           returned = False\<rparr>"
    by (simp add: bindConnsWithBuffer_def bind_start_def)
  from bindConnsWithBuffer_closes_and_joins [OF whole]
    bindConnsWithBuffer_closes_and_joins [OF part] whole
  show ?thesis
    by (simp add: bindConnsWithBuffer_def bind_start_def)
qed

section \<open>Properties of the accept loops\<close>

lemma redirect_run_dial_failure:
  assumes "dial_fails f" and "to_remote f = None" and "to_local f = None"
    and "redirect_run ts f = Some f'"
  shows "lconn_closed f' = lconn_closed f \<and> to_remote f' = None \<and> to_local f' = None"
  using assms
proof (induction ts arbitrary: f)
  case Nil
  then show ?case by simp
next
  case (Cons t ts)
  from Cons.prems(4) obtain f1 where step: "redirect_step t f = Some f1"
    and run: "redirect_run ts f1 = Some f'"
    by (cases "redirect_step t f") simp_all
  from step Cons.prems(1-3)
  have f1: "f1 = f\<lparr>task_ended := True\<rparr>"
    by (cases t) (simp_all split: if_splits)
  with Cons.prems(1-3) have "dial_fails f1" "to_remote f1 = None" "to_local f1 = None"
    by simp_all
  from Cons.IH [OF this run] f1 show ?case by simp
qed

text \<open>
  C4 fails on the code. The listener hands over one connection and the dial for it fails:
  the loop has started a goroutine for the connection, that goroutine has ended, no other
  goroutine exists or can take a step, and the accepted connection has never been closed.
\<close>

theorem RedirectToWithBuffer_dial_failure:
  "RedirectToWithBuffer (\<lambda>k. False) 0 [Some (1 :: nat), None] [] = (True, [1], [])
   \<and> redirect_run [Task] (accepted_conn True) =
       Some \<lparr>dial_fails = True, dialled = False, task_ended = True, to_remote = None,
             to_local = None, lconn_closed = 0, rconn_closed = 0\<rparr>
   \<and> redirect_step Task
       \<lparr>dial_fails = True, dialled = False, task_ended = True, to_remote = None,
        to_local = None, lconn_closed = 0, rconn_closed = 0\<rparr> = None
   \<and> redirect_step ToRemote
       \<lparr>dial_fails = True, dialled = False, task_ended = True, to_remote = None,
        to_local = None, lconn_closed = 0, rconn_closed = 0\<rparr> = None
   \<and> redirect_step ToLocal
       \<lparr>dial_fails = True, dialled = False, task_ended = True, to_remote = None,
        to_local = None, lconn_closed = 0, rconn_closed = 0\<rparr> = None"
  by (simp add: accepted_conn_def)

lemma redirect_run_dial_success:
  "redirect_run [Task, ToRemote, ToLocal, ToRemote, ToRemote, ToLocal, ToLocal]
     (accepted_conn False) =
   Some \<lparr>dial_fails = False, dialled = True, task_ended = True, to_remote = Some Exited,
         to_local = Some Exited, lconn_closed = 2, rconn_closed = 2\<rparr>"
  by (simp add: accepted_conn_def)

text \<open>
  C5 fails on the code. The hook turns the first of two waiting connections away: the
  loop has returned, it has started no goroutine, and the second connection is still with
  the listener, never accepted. Without a hook the same loop takes both and goes on to
  the next \<open>Accept\<close>.
\<close>

theorem DirectTcpToWithBuffer_hook_error:
  "DirectTcpToWithBuffer (Some refuse_first) (\<lambda>k. False) 0 [Some 1, Some 2] [] =
     (True, [], [Some 2])
   \<and> DirectTcpToWithBuffer (None :: (nat \<Rightarrow> string + nat) option) (\<lambda>k. False) 0
       [Some 1, Some 2] [] = (False, [1, 2], [])"
  by (simp add: refuse_first_def)

lemma hook_error_ends_loop:
  assumes "\<not> ctx k" and "cb lconn = Inl err"
  shows "DirectTcpToWithBuffer (Some cb) ctx k (Some lconn # listener) started =
           (True, started, listener)"
  using assms by simp

section \<open>Properties of KeepAlive\<close>

lemma keepalive_bounded_failures:
  "0 \<le> N \<Longrightarrow> keepalive_bounded N (replicate m (Tick False)) sent =
     (if nat N < m then (sent + nat N + 1, True) else (sent + m, False))"
proof (induction m arbitrary: N sent)
  case 0
  then show ?case by simp
next
  case (Suc m)
  show ?case
  proof (cases "N \<le> 0")
    case True
    with Suc.prems show ?thesis by simp
  next
    case False
    then have "0 \<le> N - 1" by simp
    from Suc.IH [OF this, of "Suc sent"] False show ?thesis
      by (auto simp: nat_diff_distrib)
  qed
qed

lemma keepalive_unbounded_ticks:
  "keepalive_unbounded (map Tick oks) sent = (sent + length oks, False)"
  by (induction oks arbitrary: sent) simp_all

lemma keepalive_unbounded_cancel:
  "keepalive_unbounded (map Tick oks @ Done # turns) sent = (sent + length oks, True)"
  by (induction oks arbitrary: sent) simp_all

text \<open>
  C6 fails on the code. With \<open>maxErrRetries = 1\<close> and every request failing, the
  goroutine sends a second request after the first failure and ends only when that one
  has failed too; after one failure it is still running. With \<open>maxErrRetries = 3\<close> it
  takes four failures.
\<close>

theorem KeepAlive_one_failure_too_many:
  "KeepAlive 1 1 [Tick False] = (1, False)
   \<and> KeepAlive 1 1 [Tick False, Tick False, Tick False] = (2, True)
   \<and> KeepAlive 1 3 [Tick False, Tick False, Tick False] = (3, False)
   \<and> KeepAlive 1 3 [Tick False, Tick False, Tick False, Tick False, Tick False] = (4, True)"
  by (simp add: KeepAlive_def)

section \<open>Properties of KnownHostsCheck\<close>

lemma KnownHostsCheck_callback_error:
  assumes "files kw \<noteq> []" and "New (files kw) = Inr callback"
    and "callback hostname remote key = Some err"
  shows "KnownHostsCheck kw New Line hostname remote key e = (Some (Lib err), e)"
  using assms by (simp add: KnownHostsCheck_def)

text \<open>
  C7 fails on the code. A host that the files do not know, in interactive mode, with
  \<open>yes\<close> and \<open>yes\<close> waiting on standard input: the call fails with the library's
  \<open>KeyError\<close>, has printed nothing and has read nothing. The questions are put for the
  host that the files do know with this very key: there \<open>yes\<close>, \<open>yes\<close> accepts, and
  \<open>no\<close> fails with \<open>unknown host\<close>.
\<close>

theorem KnownHostsCheck_unknown_host_not_asked:
  "KnownHostsCheck interactive one_host Line_of ''new.example'' ''192.0.2.7:22'' 2 yes_yes =
     (Some (Lib (KeyError 0)), yes_yes)
   \<and> fst (KnownHostsCheck interactive one_host Line_of ''known.example'' ''192.0.2.1:22'' 1
        yes_yes) = None
   \<and> printed (snd (KnownHostsCheck interactive one_host Line_of ''known.example''
        ''192.0.2.1:22'' 1 yes_yes)) = [No_host_key_found, Append_host_key]
   \<and> fst (KnownHostsCheck interactive one_host Line_of ''known.example'' ''192.0.2.1:22'' 1
        (yes_yes\<lparr>stdin := [''no'']\<rparr>)) = Some unknown_host"
  by (simp add: KnownHostsCheck_def interactive_def one_host_def yes_yes_def Scan_def
      Println_def ToLower_def WriteString_def Line_of_def)

text \<open>
  C8 fails on the code, by the same defect. For the unknown host accepted with \<open>yes\<close>
  and \<open>yes\<close> no line is added to the file. The one line that \<open>yes\<close>, \<open>yes\<close> adds is
  added for the host that is in the file already, and it names the remote address, not
  the host name.
\<close>

theorem KnownHostsCheck_unknown_host_not_stored:
  "known_hosts (snd (KnownHostsCheck interactive one_host Line_of ''new.example''
      ''192.0.2.7:22'' 2 yes_yes)) = Some []
   \<and> known_hosts (snd (KnownHostsCheck interactive one_host Line_of ''known.example''
      ''192.0.2.1:22'' 1 yes_yes)) = Some [''192.0.2.1:22 ssh-ed25519 A'']
   \<and> known_hosts (snd (KnownHostsCheck interactive one_host Line_of ''known.example''
      ''192.0.2.1:22'' 1 (yes_yes\<lparr>stdin := [''yes'', ''no'']\<rparr>))) = Some []"
  by (simp add: KnownHostsCheck_def interactive_def one_host_def yes_yes_def Scan_def
      Println_def ToLower_def WriteString_def Line_of_def)

end
